theory Spec2Isabelle
  imports Main "HOL-Library.Sublist" "HOL-Library.AList" "HOL-Library.Multiset"
begin

section \<open>RealmPortal: a shallow embedding of \<^verbatim>\<open>WoWUIMigrator\<close>\<close>

text \<open>
  The development follows \<^verbatim>\<open>src/RealmPortal.py\<close>. Text is modelled as
  \<^typ>\<open>string\<close> restricted to ASCII: a character is a word character when it is an ASCII
  letter, digit or underscore, and case folding is the ASCII one. Paths are POSIX paths
  (\<^verbatim>\<open>os.sep\<close> is the slash) and are compared as strings, exactly as the source does.
\<close>

subsection \<open>Regular-expression substitution as used by \<^verbatim>\<open>update_file_contents\<close>\<close>

text \<open>
  The source builds the pattern \<^verbatim>\<open>\b<escaped old_text>\b\<close> and calls
  \<^verbatim>\<open>re.sub(pattern, new_text, content, flags=re.IGNORECASE)\<close>. The escaped key matches
  itself literally, so a match at a position is: a word boundary, the key read
  case-insensitively, a word boundary.
\<close>

definition is_upper :: "char \<Rightarrow> bool" where
  "is_upper c = (65 \<le> (of_char c :: nat) \<and> (of_char c :: nat) \<le> 90)"

definition is_lower :: "char \<Rightarrow> bool" where
  "is_lower c = (97 \<le> (of_char c :: nat) \<and> (of_char c :: nat) \<le> 122)"

definition is_digit :: "char \<Rightarrow> bool" where
  "is_digit c = (48 \<le> (of_char c :: nat) \<and> (of_char c :: nat) \<le> 57)"

definition is_word :: "char \<Rightarrow> bool" where
  "is_word c = (is_upper c \<or> is_lower c \<or> is_digit c \<or> c = CHR ''_'')"

definition lower_char :: "char \<Rightarrow> char" where
  "lower_char c = (if is_upper c then char_of ((of_char c :: nat) + 32) else c)"

definition lower_str :: "string \<Rightarrow> string" where
  "lower_str s = map lower_char s"

text \<open>\<^verbatim>\<open>\b\<close> between the character before a position and the one after it
  (\<open>None\<close> at either end of the text).\<close>

definition word_opt :: "char option \<Rightarrow> bool" where
  "word_opt c = (case c of None \<Rightarrow> False | Some x \<Rightarrow> is_word x)"

definition boundary :: "char option \<Rightarrow> char option \<Rightarrow> bool" where
  "boundary p n = (word_opt p \<noteq> word_opt n)"

definition first_opt :: "string \<Rightarrow> char option" where
  "first_opt s = (case s of [] \<Rightarrow> None | c # _ \<Rightarrow> Some c)"

definition last_opt :: "char option \<Rightarrow> string \<Rightarrow> char option" where
  "last_opt p s = (if s = [] then p else Some (last s))"

text \<open>The pattern matches at the head of \<open>s\<close>, the character before it being \<open>p\<close>.\<close>

definition match_here :: "string \<Rightarrow> char option \<Rightarrow> string \<Rightarrow> bool" where
  "match_here k p s =
     (length k \<le> length s \<and>
      boundary p (first_opt s) \<and>
      lower_str (take (length k) s) = lower_str k \<and>
      boundary (last_opt p (take (length k) s)) (first_opt (drop (length k) s)))"

text \<open>
  The replacement is a template: \<^verbatim>\<open>re.sub\<close> takes a backslash-free replacement
  literally and parses any other one (\<^verbatim>\<open>\n\<close>, \<^verbatim>\<open>\g<0>\<close>, group numbers; a bad escape
  raises \<^verbatim>\<open>re.error\<close>). Only the literal case is modelled; a template with a backslash
  is reported as the error \<open>None\<close> before any matching, which is where the library raises.
\<close>

definition literal_template :: "string \<Rightarrow> bool" where
  "literal_template r = (CHR 0x5C \<notin> set r)"

text \<open>Leftmost, non-overlapping matches, scanning left to right; \<open>p\<close> is the character
  before the rest \<open>s\<close>. An empty key gives empty matches, after each of which one
  character is copied.\<close>

function sub_scan :: "string \<Rightarrow> string \<Rightarrow> char option \<Rightarrow> string \<Rightarrow> string" where
  "sub_scan k r p [] = (if match_here k p [] then r else [])"
| "sub_scan k r p (c # cs) =
     (if match_here k p (c # cs) then
        (if k = [] then r @ c # sub_scan k r (Some c) cs
         else r @ sub_scan k r (Some (last (take (length k) (c # cs))))
                    (drop (length k) (c # cs)))
      else c # sub_scan k r (Some c) cs)"
  by pat_completeness auto
termination
  by (relation "measure (\<lambda>(k, r, p, s). length s)") auto

definition re_sub :: "string \<Rightarrow> string \<Rightarrow> string \<Rightarrow> string option" where
  "re_sub old_text new_text content =
     (if literal_template new_text then Some (sub_scan old_text new_text None content)
      else None)"

text \<open>The loop \<^verbatim>\<open>for old_text, new_text in content_mappings.items()\<close>: every key is
  substituted into the text the previous keys have produced. A dictionary is an
  association list in insertion order.\<close>

type_synonym mappings = "(string \<times> string) list"

fun apply_mappings :: "mappings \<Rightarrow> string \<Rightarrow> string option" where
  "apply_mappings [] content = Some content"
| "apply_mappings ((old_text, new_text) # rest) content =
     (case re_sub old_text new_text content of
        None \<Rightarrow> None
      | Some content' \<Rightarrow> apply_mappings rest content')"

subsection \<open>Paths\<close>

definition sep :: char where
  "sep = CHR ''/''"

text \<open>\<^verbatim>\<open>str.split(os.sep)\<close>\<close>

fun split_sep :: "string \<Rightarrow> string list" where
  "split_sep [] = [[]]"
| "split_sep (c # cs) =
     (if c = sep then [] # split_sep cs
      else (case split_sep cs of [] \<Rightarrow> [[c]] | w # ws \<Rightarrow> (c # w) # ws))"

text \<open>The components a path names: empty components and \<^verbatim>\<open>.\<close> name nothing. A relative
  path is read from the root of the model, which stands for the current directory then;
  \<^verbatim>\<open>..\<close> and symbolic links are not resolved.\<close>

definition segments :: "string \<Rightarrow> string list" where
  "segments p = filter (\<lambda>s. s \<noteq> [] \<and> s \<noteq> ''.'') (split_sep p)"

text \<open>\<^verbatim>\<open>os.path.join(a, b)\<close> (posixpath)\<close>

definition os_path_join :: "string \<Rightarrow> string \<Rightarrow> string" where
  "os_path_join a b =
     (if prefix [sep] b then b
      else if a = [] \<or> last a = sep then a @ b
      else a @ [sep] @ b)"

text \<open>\<^verbatim>\<open>os.path.basename\<close>, \<^verbatim>\<open>os.path.dirname\<close> (posixpath)\<close>

definition os_path_basename :: "string \<Rightarrow> string" where
  "os_path_basename p = rev (takeWhile (\<lambda>c. c \<noteq> sep) (rev p))"

definition os_path_dirname :: "string \<Rightarrow> string" where
  "os_path_dirname p =
     (let head = rev (dropWhile (\<lambda>c. c \<noteq> sep) (rev p))
      in if head \<noteq> [] \<and> (\<exists>c \<in> set head. c \<noteq> sep)
         then rev (dropWhile (\<lambda>c. c = sep) (rev head))
         else head)"

text \<open>\<^verbatim>\<open>Path.parent\<close> and \<^verbatim>\<open>Path / name\<close> of pathlib, on the string of a normalised path.\<close>

definition path_parent :: "string \<Rightarrow> string" where
  "path_parent p =
     (if sep \<notin> set p then ''.''
      else let head = rev (tl (dropWhile (\<lambda>c. c \<noteq> sep) (rev p)))
           in if head = [] then [sep] else head)"

definition path_div :: "string \<Rightarrow> string \<Rightarrow> string" where
  "path_div parent name =
     (if parent = ''.'' then name
      else if parent = [sep] then sep # name
      else parent @ [sep] @ name)"

text \<open>\<^verbatim>\<open>s in t\<close> on strings\<close>

fun contains :: "string \<Rightarrow> string \<Rightarrow> bool" where
  "contains sub [] = (sub = [])"
| "contains sub (c # cs) = (prefix sub (c # cs) \<or> contains sub cs)"

text \<open>\<open>d\<close> lies below the directory \<open>a\<close>: \<^verbatim>\<open>d.startswith(a + os.sep)\<close>.\<close>

definition below :: "string \<Rightarrow> string \<Rightarrow> bool" where
  "below a d = prefix (a @ [sep]) d"

text \<open>\<^verbatim>\<open>os.path.splitext(name)[1]\<close>: from the last dot, unless only dots precede it.\<close>

definition splitext_ext :: "string \<Rightarrow> string" where
  "splitext_ext name =
     (let base = os_path_basename name;
          ext = rev (takeWhile (\<lambda>c. c \<noteq> CHR ''.'') (rev base));
          stem = take (length base - length ext - 1) base
      in if CHR ''.'' \<in> set base \<and> (\<exists>c \<in> set stem. c \<noteq> CHR ''.'')
         then CHR ''.'' # ext else [])"

subsection \<open>The filesystem\<close>

datatype node = File string | Dir "(string \<times> node) list"

datatype error =
    FileNotFoundError | FileExistsError | NotADirectoryError | IsADirectoryError
  | DirectoryNotEmpty | InvalidArgument | ShutilError | PermissionError | ReError
  | RecursionError

primrec lookup :: "string list \<Rightarrow> node \<Rightarrow> node option" where
  "lookup [] t = Some t"
| "lookup (s # ss) t =
     (case t of
        File _ \<Rightarrow> None
      | Dir es \<Rightarrow> (case map_of es s of None \<Rightarrow> None | Some u \<Rightarrow> lookup ss u))"

text \<open>Store \<open>new\<close> at a path whose parent directory exists (replacing what is there);
  remove the entry at a path.\<close>

primrec put_at :: "string list \<Rightarrow> node \<Rightarrow> node \<Rightarrow> node" where
  "put_at [] new t = new"
| "put_at (s # ss) new t =
     (case t of
        File c \<Rightarrow> File c
      | Dir es \<Rightarrow>
          (if ss = [] then Dir (AList.update s new es)
           else (case map_of es s of
                   None \<Rightarrow> Dir es
                 | Some u \<Rightarrow> Dir (AList.update s (put_at ss new u) es))))"

primrec remove_at :: "string list \<Rightarrow> node \<Rightarrow> node" where
  "remove_at [] t = t"
| "remove_at (s # ss) t =
     (case t of
        File c \<Rightarrow> File c
      | Dir es \<Rightarrow>
          (if ss = [] then Dir (AList.delete s es)
           else (case map_of es s of
                   None \<Rightarrow> Dir es
                 | Some u \<Rightarrow> Dir (AList.update s (remove_at ss u) es))))"

text \<open>\<^verbatim>\<open>os.makedirs\<close> followed by storing \<open>new\<close>: missing directories on the way are created.\<close>

primrec make_at :: "string list \<Rightarrow> node \<Rightarrow> node \<Rightarrow> node" where
  "make_at [] new t = new"
| "make_at (s # ss) new t =
     (case t of
        File c \<Rightarrow> File c
      | Dir es \<Rightarrow>
          (case map_of es s of
             None \<Rightarrow> Dir (AList.update s (make_at ss new (Dir [])) es)
           | Some u \<Rightarrow> Dir (AList.update s (make_at ss new u) es)))"

definition is_dir_node :: "node option \<Rightarrow> bool" where
  "is_dir_node n = (case n of Some (Dir _) \<Rightarrow> True | _ \<Rightarrow> False)"

definition os_path_exists :: "node \<Rightarrow> string \<Rightarrow> bool" where
  "os_path_exists fs p = (lookup (segments p) fs \<noteq> None)"

definition os_path_isdir :: "node \<Rightarrow> string \<Rightarrow> bool" where
  "os_path_isdir fs p = is_dir_node (lookup (segments p) fs)"

definition os_listdir :: "node \<Rightarrow> string \<Rightarrow> error + string list" where
  "os_listdir fs p =
     (case lookup (segments p) fs of
        None \<Rightarrow> Inl FileNotFoundError
      | Some (File _) \<Rightarrow> Inl NotADirectoryError
      | Some (Dir es) \<Rightarrow> Inr (map fst es))"

text \<open>\<^verbatim>\<open>os.rename\<close> (rename(2)): the entry at \<open>src\<close>, with everything below it, becomes
  the entry at \<open>dst\<close>. A file replaces a file, a directory replaces an empty directory.\<close>

definition os_rename :: "node \<Rightarrow> string \<Rightarrow> string \<Rightarrow> error + node" where
  "os_rename fs src dst =
     (let s = segments src; d = segments dst in
      case lookup s fs of
        None \<Rightarrow> Inl FileNotFoundError
      | Some n \<Rightarrow>
          if s = d then Inr fs
          else if s = [] \<or> d = [] then Inl InvalidArgument
          else (case lookup (butlast d) fs of
                  None \<Rightarrow> Inl FileNotFoundError
                | Some (File _) \<Rightarrow> Inl NotADirectoryError
                | Some (Dir _) \<Rightarrow>
                    if prefix s d then Inl InvalidArgument
                    else (case (n, lookup d fs) of
                            (File _, Some (Dir _)) \<Rightarrow> Inl IsADirectoryError
                          | (Dir _, Some (File _)) \<Rightarrow> Inl NotADirectoryError
                          | (Dir _, Some (Dir (e # es))) \<Rightarrow> Inl DirectoryNotEmpty
                          | _ \<Rightarrow> Inr (put_at d n (remove_at s fs)))))"

text \<open>\<^verbatim>\<open>shutil.move\<close>: into an existing directory the source keeps its basename there
  (an error if that exists); otherwise a rename. The copy-and-delete fallback after a
  failed rename serves moves across filesystems and is not modelled: there is one
  filesystem.\<close>

definition shutil_move :: "node \<Rightarrow> string \<Rightarrow> string \<Rightarrow> error + node" where
  "shutil_move fs src dst =
     (if os_path_isdir fs dst then
        (if segments src = segments dst then os_rename fs src dst
         else let real_dst = os_path_join dst (os_path_basename src)
              in if os_path_exists fs real_dst then Inl ShutilError
                 else os_rename fs src real_dst)
      else os_rename fs src dst)"

definition os_rmdir :: "node \<Rightarrow> string \<Rightarrow> error + node" where
  "os_rmdir fs p =
     (case lookup (segments p) fs of
        None \<Rightarrow> Inl FileNotFoundError
      | Some (File _) \<Rightarrow> Inl NotADirectoryError
      | Some (Dir []) \<Rightarrow>
          (if segments p = [] then Inl InvalidArgument
           else Inr (remove_at (segments p) fs))
      | Some (Dir (e # es)) \<Rightarrow> Inl DirectoryNotEmpty)"

text \<open>\<^verbatim>\<open>shutil.copytree(src, dst)\<close>: \<open>dst\<close> must not exist; it is created with its missing
  parents and receives a copy of the tree at \<open>src\<close> as it is when the call starts.\<close>

definition shutil_copytree :: "node \<Rightarrow> string \<Rightarrow> string \<Rightarrow> error + node" where
  "shutil_copytree fs src dst =
     (case lookup (segments src) fs of
        None \<Rightarrow> Inl FileNotFoundError
      | Some (File _) \<Rightarrow> Inl NotADirectoryError
      | Some (Dir es) \<Rightarrow>
          if os_path_exists fs dst then Inl FileExistsError
          else let fs' = make_at (segments dst) (Dir es) fs
               in if lookup (segments dst) fs' = Some (Dir es) then Inr fs'
                  else Inl NotADirectoryError)"

text \<open>\<^verbatim>\<open>os.walk(top)\<close>, top-down: each directory with the names of its subdirectories and
  of its files, then the subdirectories in listing order. Errors are ignored, as
  \<^verbatim>\<open>os.walk\<close> does without \<^verbatim>\<open>onerror\<close>.\<close>

definition dir_names :: "(string \<times> node) list \<Rightarrow> string list" where
  "dir_names es = map fst (filter (\<lambda>e. case snd e of Dir _ \<Rightarrow> True | File _ \<Rightarrow> False) es)"

definition file_names :: "(string \<times> node) list \<Rightarrow> string list" where
  "file_names es = map fst (filter (\<lambda>e. case snd e of Dir _ \<Rightarrow> False | File _ \<Rightarrow> True) es)"

type_synonym walk_entry = "string \<times> string list \<times> string list"

fun walk_node :: "string \<Rightarrow> node \<Rightarrow> walk_entry list" where
  "walk_node root (File c) = []"
| "walk_node root (Dir es) =
     (root, dir_names es, file_names es) #
     concat (map (\<lambda>e. walk_node (os_path_join root (fst e)) (snd e)) es)"

definition os_walk :: "node \<Rightarrow> string \<Rightarrow> walk_entry list" where
  "os_walk fs start = (case lookup (segments start) fs of None \<Rightarrow> [] | Some t \<Rightarrow> walk_node start t)"

subsection \<open>The migrator object and its environment\<close>

datatype level = INFO | WARNING | ERROR

text \<open>The fields of \<^verbatim>\<open>WoWUIMigrator\<close>, and what the methods read from or write to the
  outside: the filesystem, the log, the clock (\<^verbatim>\<open>int(time.time())\<close> and
  \<^verbatim>\<open>time.strftime("%Y%m%d_%H%M%S")\<close>), the files (by their components) on which
  \<^verbatim>\<open>open\<close> fails for reading or for writing, and the interpreter's recursion limit.\<close>

record migrator =
  wtf_path :: string
  dry_run :: bool
  changes_made :: "string list"
  working_path :: string
  disk :: node
  logged :: "(level \<times> string) list"
  clock_epoch :: nat
  clock_stamp :: string
  unreadable :: "string list list"
  unwritable :: "string list list"
  recursion_limit :: nat

definition logger :: "level \<Rightarrow> string \<Rightarrow> migrator \<Rightarrow> migrator" where
  "logger lv msg m = m\<lparr>logged := logged m @ [(lv, msg)]\<rparr>"

definition config_extensions :: "string list" where
  "config_extensions = [''.lua'', ''.txt'', ''.toc'', ''.xml'', ''.wtf'']"

text \<open>Truthiness of an optional string argument: \<^verbatim>\<open>None\<close> and \<^verbatim>\<open>""\<close> are false.\<close>

definition truthy :: "string option \<Rightarrow> bool" where
  "truthy x = (case x of None \<Rightarrow> False | Some s \<Rightarrow> s \<noteq> [])"

function str_nat :: "nat \<Rightarrow> string" where
  "str_nat n = (if n < 10 then [char_of (48 + n)] else str_nat (n div 10) @ [char_of (48 + n mod 10)])"
  by pat_completeness auto
termination
  by (relation "measure id") auto

declare str_nat.simps [simp del]

fun str_error :: "error \<Rightarrow> string" where
  "str_error FileNotFoundError = ''FileNotFoundError''"
| "str_error FileExistsError = ''FileExistsError''"
| "str_error NotADirectoryError = ''NotADirectoryError''"
| "str_error IsADirectoryError = ''IsADirectoryError''"
| "str_error DirectoryNotEmpty = ''DirectoryNotEmpty''"
| "str_error InvalidArgument = ''InvalidArgument''"
| "str_error ShutilError = ''ShutilError''"
| "str_error PermissionError = ''PermissionError''"
| "str_error ReError = ''ReError''"
| "str_error RecursionError = ''RecursionError''"

subsection \<open>\<^verbatim>\<open>_merge_directories\<close>\<close>

text \<open>
  A result is the exception raised, if any, with the object as the call leaves it:
  what was moved before an exception stays moved. The nesting of the recursive calls
  is bounded by the recursion limit; beyond it Python raises \<^verbatim>\<open>RecursionError\<close>,
  an \<^verbatim>\<open>Exception\<close> like the others.
\<close>

definition backup_name :: "migrator \<Rightarrow> string \<Rightarrow> string" where
  "backup_name m target_item = target_item @ ''.backup_'' @ str_nat (clock_epoch m)"

text \<open>The body of the loop over \<^verbatim>\<open>os.listdir(source_dir)\<close> for an entry that is not a
  directory: back up an existing target, then move the source into place.\<close>

definition merge_file :: "string \<Rightarrow> string \<Rightarrow> migrator \<Rightarrow> error option \<times> migrator" where
  "merge_file source_item target_item m =
     (if os_path_exists (disk m) target_item then
        (case shutil_move (disk m) target_item (backup_name m target_item) of
           Inl e \<Rightarrow> (Some e, m)
         | Inr fs1 \<Rightarrow>
             (let m1 = logger INFO (''Backed up existing file: '' @ target_item @ '' -> ''
                                      @ backup_name m target_item) (m\<lparr>disk := fs1\<rparr>)
              in case shutil_move (disk m1) source_item target_item of
                   Inl e \<Rightarrow> (Some e, m1)
                 | Inr fs2 \<Rightarrow> (None, m1\<lparr>disk := fs2\<rparr>)))
      else (case shutil_move (disk m) source_item target_item of
              Inl e \<Rightarrow> (Some e, m)
            | Inr fs2 \<Rightarrow> (None, m\<lparr>disk := fs2\<rparr>)))"

definition move_dir :: "string \<Rightarrow> string \<Rightarrow> migrator \<Rightarrow> error option \<times> migrator" where
  "move_dir source_item target_item m =
     (case shutil_move (disk m) source_item target_item of
        Inl e \<Rightarrow> (Some e, m)
      | Inr fs' \<Rightarrow> (None, m\<lparr>disk := fs'\<rparr>))"

text \<open>\<^verbatim>\<open>if not os.listdir(source_dir): os.rmdir(source_dir)\<close>\<close>

definition remove_if_empty :: "string \<Rightarrow> migrator \<Rightarrow> error option \<times> migrator" where
  "remove_if_empty source_dir m =
     (case os_listdir (disk m) source_dir of
        Inl e \<Rightarrow> (Some e, m)
      | Inr [] \<Rightarrow>
          (case os_rmdir (disk m) source_dir of
             Inl e \<Rightarrow> (Some e, m)
           | Inr fs' \<Rightarrow> (None, m\<lparr>disk := fs'\<rparr>))
      | Inr (x # xs) \<Rightarrow> (None, m))"

fun merge_directories :: "nat \<Rightarrow> string \<Rightarrow> string \<Rightarrow> migrator \<Rightarrow> error option \<times> migrator"
  and merge_items :: "nat \<Rightarrow> string list \<Rightarrow> string \<Rightarrow> string \<Rightarrow> migrator \<Rightarrow> error option \<times> migrator"
where
  "merge_directories 0 source_dir target_dir m = (Some RecursionError, m)"
| "merge_directories (Suc n) source_dir target_dir m =
     (case os_listdir (disk m) source_dir of
        Inl e \<Rightarrow> (Some e, m)
      | Inr items \<Rightarrow>
          (case merge_items n items source_dir target_dir m of
             (Some e, m') \<Rightarrow> (Some e, m')
           | (None, m') \<Rightarrow> remove_if_empty source_dir m'))"
| "merge_items n [] source_dir target_dir m = (None, m)"
| "merge_items n (item # items) source_dir target_dir m =
     (let source_item = os_path_join source_dir item;
          target_item = os_path_join target_dir item
      in case (if os_path_isdir (disk m) source_item then
                 (if os_path_exists (disk m) target_item
                  then merge_directories n source_item target_item m
                  else move_dir source_item target_item m)
               else merge_file source_item target_item m) of
           (Some e, m') \<Rightarrow> (Some e, m')
         | (None, m') \<Rightarrow> merge_items n items source_dir target_dir m')"

subsection \<open>\<^verbatim>\<open>get_folder_mappings\<close> and \<^verbatim>\<open>get_content_mappings\<close>\<close>

text \<open>\<^verbatim>\<open>mappings[k] = v\<close> on a dictionary: a new key goes last, an old key keeps its place.\<close>

definition dict_set :: "string \<Rightarrow> string \<Rightarrow> mappings \<Rightarrow> mappings" where
  "dict_set k v d = AList.update k v d"

definition add_pair :: "string option \<Rightarrow> string option \<Rightarrow> mappings \<Rightarrow> mappings" where
  "add_pair old new d = (if truthy old \<and> truthy new then dict_set (the old) (the new) d else d)"

definition get_folder_mappings ::
  "string \<Rightarrow> string \<Rightarrow> string option \<Rightarrow> string option \<Rightarrow> string option \<Rightarrow> string option \<Rightarrow> mappings" where
  "get_folder_mappings old_realm new_realm old_char new_char old_account new_account =
     add_pair old_char new_char
       (add_pair (Some old_realm) (Some new_realm)
         (add_pair old_account new_account []))"

definition get_content_mappings ::
  "string \<Rightarrow> string \<Rightarrow> string option \<Rightarrow> string option \<Rightarrow> string option \<Rightarrow> string option \<Rightarrow> mappings" where
  "get_content_mappings old_realm new_realm old_char new_char old_account new_account =
     add_pair old_account new_account
       (add_pair old_char new_char
         (add_pair (Some old_realm) (Some new_realm) []))"

subsection \<open>\<^verbatim>\<open>rename_folders\<close>\<close>

definition account_path :: "migrator \<Rightarrow> string \<Rightarrow> string" where
  "account_path m account = os_path_join (os_path_join (working_path m) ''Account'') account"

text \<open>The test that keeps a directory of the walk in \<^verbatim>\<open>all_dirs\<close>.\<close>

definition keep_dir :: "migrator \<Rightarrow> string option \<Rightarrow> string \<Rightarrow> string \<Rightarrow> bool" where
  "keep_dir m old_account root dir_name =
     (let full_path = os_path_join root dir_name in
      if truthy old_account then
        (let ap = account_path m (the old_account) in
         if \<not> (full_path = ap \<or> prefix (ap @ [sep]) full_path) then
           (if \<not> (dir_name = the old_account \<and> contains ''Account'' root) then False
            else True)
         else True)
      else True)"

definition all_dirs :: "migrator \<Rightarrow> string option \<Rightarrow> (string \<times> nat) list" where
  "all_dirs m old_account =
     concat (map (\<lambda>(root, dirs, files).
                    map (\<lambda>dir_name. (os_path_join root dir_name,
                                       length (split_sep (os_path_join root dir_name))))
                        (filter (keep_dir m old_account root) dirs))
                 (os_walk (disk m) (working_path m)))"

text \<open>\<^verbatim>\<open>all_dirs.sort(key=lambda x: x[1], reverse=True)\<close>: a stable sort, equal keys
  keeping their order also when reversed.\<close>

definition sort_deepest_first :: "(string \<times> nat) list \<Rightarrow> (string \<times> nat) list" where
  "sort_deepest_first xs = rev (sort_key snd (rev xs))"

text \<open>One turn of the loop over the sorted directories: the exception that leaves
  \<^verbatim>\<open>rename_folders\<close> (a failed \<^verbatim>\<open>os.rename\<close>), or the pair recorded if any.\<close>

definition rename_dir ::
  "mappings \<Rightarrow> string \<Rightarrow> migrator \<Rightarrow> (error + (string \<times> string) option) \<times> migrator" where
  "rename_dir folder_mappings dir_path m =
     (let dir_name = os_path_basename dir_path;
          parent_dir = os_path_dirname dir_path;
          new_name = map_of folder_mappings dir_name
      in if truthy new_name \<and> the new_name \<noteq> dir_name then
           (let new_path = os_path_join parent_dir (the new_name);
                done = (\<lambda>m'. (Inr (Some (dir_path, new_path)),
                         m'\<lparr>changes_made := changes_made m' @
                               [''Folder: '' @ dir_path @ '' -> '' @ new_path]\<rparr>))
            in if \<not> dry_run m then
                 (if os_path_exists (disk m) new_path then
                    (case merge_directories (recursion_limit m) dir_path new_path
                            (logger WARNING (''Target directory already exists, merging: ''
                                              @ new_path) m) of
                       (Some e, m') \<Rightarrow>
                         (Inr None, logger ERROR (''Failed to merge '' @ dir_path @ '' -> ''
                                       @ new_path @ '': '' @ str_error e) m')
                     | (None, m') \<Rightarrow>
                         done (logger INFO (''Merged folder: '' @ dir_path @ '' -> ''
                                             @ new_path) m'))
                  else (case os_rename (disk m) dir_path new_path of
                          Inl e \<Rightarrow> (Inl e, m)
                        | Inr fs' \<Rightarrow>
                            done (logger INFO (''Renamed folder: '' @ dir_path @ '' -> ''
                                                @ new_path) (m\<lparr>disk := fs'\<rparr>))))
               else done (logger INFO (''[DRY RUN] Would rename folder: '' @ dir_path
                                        @ '' -> '' @ new_path) m))
         else (Inr None, m))"

fun rename_loop ::
  "mappings \<Rightarrow> (string \<times> nat) list \<Rightarrow> (string \<times> string) list \<Rightarrow> migrator
     \<Rightarrow> (error + (string \<times> string) list) \<times> migrator" where
  "rename_loop folder_mappings [] renamed m = (Inr renamed, m)"
| "rename_loop folder_mappings ((dir_path, depth) # rest) renamed m =
     (case rename_dir folder_mappings dir_path m of
        (Inl e, m') \<Rightarrow> (Inl e, m')
      | (Inr None, m') \<Rightarrow> rename_loop folder_mappings rest renamed m'
      | (Inr (Some r), m') \<Rightarrow> rename_loop folder_mappings rest (renamed @ [r]) m')"

definition rename_folders ::
  "mappings \<Rightarrow> string option \<Rightarrow> migrator \<Rightarrow> (error + (string \<times> string) list) \<times> migrator" where
  "rename_folders folder_mappings old_account m =
     rename_loop folder_mappings (sort_deepest_first (all_dirs m old_account)) [] m"

subsection \<open>\<^verbatim>\<open>update_file_contents\<close>\<close>

text \<open>The test on \<^verbatim>\<open>root\<close> at the head of the walk loop.\<close>

definition in_scope :: "migrator \<Rightarrow> mappings \<Rightarrow> string option \<Rightarrow> string \<Rightarrow> bool" where
  "in_scope m content_mappings old_account root =
     (if truthy old_account then
        (let ap = account_path m (the old_account);
             new_account = (case map_of content_mappings (the old_account) of
                              None \<Rightarrow> the old_account | Some v \<Rightarrow> v);
             new_account_path = account_path m new_account
         in prefix ap root \<or> prefix new_account_path root \<or> root = working_path m)
      else True)"

text \<open>The body of the \<^verbatim>\<open>try\<close>: read, substitute every key, write back when the text
  changed. \<open>Inl\<close> is the exception the \<^verbatim>\<open>except\<close> clause receives; nothing has been
  changed when one is raised. The boolean says whether the file counts as updated.\<close>

definition process_file :: "mappings \<Rightarrow> string \<Rightarrow> migrator \<Rightarrow> error + (bool \<times> migrator)" where
  "process_file content_mappings file_path m =
     (if segments file_path \<in> set (unreadable m) then Inl PermissionError
      else case lookup (segments file_path) (disk m) of
        None \<Rightarrow> Inl FileNotFoundError
      | Some (Dir _) \<Rightarrow> Inl IsADirectoryError
      | Some (File original_content) \<Rightarrow>
          (case apply_mappings content_mappings original_content of
             None \<Rightarrow> Inl ReError
           | Some content \<Rightarrow>
               if content \<noteq> original_content then
                 (let record = (\<lambda>m'. Inr (True,
                        m'\<lparr>changes_made := changes_made m' @ [''Content: '' @ file_path]\<rparr>))
                  in if \<not> dry_run m then
                       (if segments file_path \<in> set (unwritable m) then Inl PermissionError
                        else record (logger INFO (''Updated file content: '' @ file_path)
                               (m\<lparr>disk := put_at (segments file_path) (File content) (disk m)\<rparr>)))
                     else record (logger INFO (''[DRY RUN] Would update file content: ''
                                                @ file_path) m))
               else Inr (False, m)))"

fun update_files ::
  "mappings \<Rightarrow> string \<Rightarrow> string list \<Rightarrow> string list \<Rightarrow> migrator \<Rightarrow> string list \<times> migrator" where
  "update_files content_mappings root [] updated m = (updated, m)"
| "update_files content_mappings root (file_name # rest) updated m =
     (let file_path = os_path_join root file_name;
          file_ext = lower_str (splitext_ext file_name)
      in if file_ext \<notin> set config_extensions
         then update_files content_mappings root rest updated m
         else (case process_file content_mappings file_path m of
                 Inl e \<Rightarrow>
                   update_files content_mappings root rest updated
                     (logger ERROR (''Error processing file '' @ file_path @ '': ''
                                     @ str_error e) m)
               | Inr (changed, m') \<Rightarrow>
                   update_files content_mappings root rest
                     (if changed then updated @ [file_path] else updated) m'))"

fun update_walk ::
  "mappings \<Rightarrow> string option \<Rightarrow> walk_entry list \<Rightarrow> string list \<Rightarrow> migrator
     \<Rightarrow> string list \<times> migrator" where
  "update_walk content_mappings old_account [] updated m = (updated, m)"
| "update_walk content_mappings old_account ((root, dirs, files) # rest) updated m =
     (if \<not> in_scope m content_mappings old_account root
      then update_walk content_mappings old_account rest updated m
      else (case update_files content_mappings root files updated m of
              (updated', m') \<Rightarrow> update_walk content_mappings old_account rest updated' m'))"

definition update_file_contents ::
  "mappings \<Rightarrow> string option \<Rightarrow> migrator \<Rightarrow> string list \<times> migrator" where
  "update_file_contents content_mappings old_account m =
     update_walk content_mappings old_account (os_walk (disk m) (working_path m)) [] m"

subsection \<open>\<^verbatim>\<open>create_migration_copy\<close> and \<^verbatim>\<open>migrate\<close>\<close>

fun join_underscore :: "string list \<Rightarrow> string" where
  "join_underscore [] = []"
| "join_underscore [x] = x"
| "join_underscore (x # y # ys) = x @ ''_'' @ join_underscore (y # ys)"

definition copy_path_of ::
  "migrator \<Rightarrow> string \<Rightarrow> string \<Rightarrow> string option \<Rightarrow> string option \<Rightarrow> string" where
  "copy_path_of m old_realm new_realm old_char new_char =
     (let copy_name_parts =
            [old_realm @ ''_to_'' @ new_realm]
            @ (if truthy old_char \<and> truthy new_char
               then [the old_char @ ''_to_'' @ the new_char] else [])
            @ [clock_stamp m];
          copy_name = join_underscore copy_name_parts
      in path_div (path_parent (wtf_path m)) (''WTF_migrated_'' @ copy_name))"

definition create_migration_copy ::
  "string \<Rightarrow> string \<Rightarrow> string option \<Rightarrow> string option \<Rightarrow> migrator \<Rightarrow> (error + string) \<times> migrator" where
  "create_migration_copy old_realm new_realm old_char new_char m =
     (let copy_path = copy_path_of m old_realm new_realm old_char new_char in
      if \<not> dry_run m then
        (let m1 = logger INFO (''Creating migration copy at: '' @ copy_path) m in
         case shutil_copytree (disk m1) (wtf_path m1) copy_path of
           Inl e \<Rightarrow> (Inl e, m1)
         | Inr fs' \<Rightarrow> (Inr copy_path, m1\<lparr>disk := fs', working_path := copy_path\<rparr>))
      else (Inr copy_path,
            logger INFO (''[DRY RUN] Would create migration copy at: '' @ copy_path) m))"

definition log_pair :: "string \<Rightarrow> string option \<Rightarrow> string option \<Rightarrow> migrator \<Rightarrow> migrator" where
  "log_pair what old new m =
     (if truthy old \<and> truthy new then logger INFO (what @ the old @ '' -> '' @ the new) m else m)"

text \<open>\<open>Inl\<close> is an exception that leaves \<^verbatim>\<open>migrate\<close>; \<open>Inr\<close> is the boolean it returns.\<close>

definition migrate ::
  "string \<Rightarrow> string \<Rightarrow> string option \<Rightarrow> string option \<Rightarrow> string option \<Rightarrow> string option
     \<Rightarrow> migrator \<Rightarrow> (error + bool) \<times> migrator" where
  "migrate old_realm new_realm old_char new_char old_account new_account m =
     (let m0 = log_pair ''Account: '' old_account new_account
                (log_pair ''Character: '' old_char new_char
                  (logger INFO (''Realm: '' @ old_realm @ '' -> '' @ new_realm)
                    (logger INFO (''Original WTF Path: '' @ wtf_path m)
                      (logger INFO ''Starting WoW UI migration...'' m))))
      in if \<not> os_path_exists (disk m0) (wtf_path m0)
         then (Inr False, logger ERROR (''WTF folder not found: '' @ wtf_path m0) m0)
         else
           (case create_migration_copy old_realm new_realm old_char new_char m0 of
              (Inl e, m1) \<Rightarrow> (Inl e, m1)
            | (Inr copy_path, m1) \<Rightarrow>
                (let m2 = logger INFO (''Working on copy at: '' @ working_path m1) m1;
                     folder_mappings = get_folder_mappings old_realm new_realm old_char
                                         new_char old_account new_account;
                     content_mappings = get_content_mappings old_realm new_realm old_char
                                          new_char old_account new_account
                 in case rename_folders folder_mappings old_account m2 of
                      (Inl e, m3) \<Rightarrow>
                        (Inr False, logger ERROR (''Migration failed: '' @ str_error e) m3)
                    | (Inr renamed_folders, m3) \<Rightarrow>
                        (case update_file_contents content_mappings old_account m3 of
                           (updated_files, m4) \<Rightarrow>
                             (Inr True,
                              logger INFO (''Original WTF folder unchanged at: '' @ wtf_path m4)
                                (logger INFO (''Migrated copy created at: '' @ copy_path)
                                  (logger INFO (''Files updated: ''
                                                 @ str_nat (length updated_files))
                                    (logger INFO (''Folders renamed: ''
                                                   @ str_nat (length renamed_folders))
                                      (logger INFO ''Migration completed!'' m4)))))))))"

subsection \<open>Words of a text\<close>

text \<open>A name is a non-empty string of word characters, such as a character name or a
  one-word realm name.\<close>

definition is_name :: "string \<Rightarrow> bool" where
  "is_name k = (k \<noteq> [] \<and> (\<forall>c \<in> set k. is_word c))"

text \<open>A text is a sequence of maximal runs of word characters (its words) and of the
  characters between them; \<open>map_words f\<close> replaces every word \<open>w\<close> by \<open>f w\<close>.\<close>

function map_words :: "(string \<Rightarrow> string) \<Rightarrow> string \<Rightarrow> string" where
  "map_words f [] = []"
| "map_words f (c # cs) =
     (if is_word c
      then f (takeWhile is_word (c # cs)) @ map_words f (dropWhile is_word (c # cs))
      else c # map_words f cs)"
  by pat_completeness auto
termination
  by (relation "measure (\<lambda>(f, s). length s)")
     (auto simp: length_dropWhile_le less_Suc_eq_le)

text \<open>What the loop over the mapping does to one word when every key is a name: each
  key in turn replaces the word if it equals it up to case.\<close>

fun chain :: "mappings \<Rightarrow> string \<Rightarrow> string" where
  "chain [] w = w"
| "chain ((k, v) # m) w = chain m (if lower_str w = lower_str k then v else w)"

definition word_step :: "string \<Rightarrow> string \<Rightarrow> string \<Rightarrow> string" where
  "word_step k r w = (if lower_str w = lower_str k then r else w)"

definition name_mapping :: "mappings \<Rightarrow> bool" where
  "name_mapping m = list_all (\<lambda>(k, v). is_name k \<and> is_name v) m"

text \<open>\<^verbatim>\<open>re.search\<close> with the pattern of a key: the key matches somewhere in the text, the
  character before the text being \<open>p\<close>.\<close>

fun occurs :: "string \<Rightarrow> char option \<Rightarrow> string \<Rightarrow> bool" where
  "occurs k p [] = match_here k p []"
| "occurs k p (c # cs) = (match_here k p (c # cs) \<or> occurs k (Some c) cs)"

text \<open>No key of the mapping matches inside a replacement value of the mapping.\<close>

definition no_rematch :: "mappings \<Rightarrow> bool" where
  "no_rematch m = list_all (\<lambda>(k, v). list_all (\<lambda>(k', v'). \<not> occurs k None v') m) m"

section \<open>Example states\<close>



text \<open>Two realm directories whose names differ in letter case only.\<close>

definition mixed_case :: migrator where
  "mixed_case =
     \<lparr>wtf_path = ''/WTF'', dry_run = False, changes_made = [], working_path = ''/W'',
      disk = Dir [(''W'', Dir [(''Account'', Dir [(''Bob'',
                Dir [(''MyRealm'', Dir [(''Hero'', Dir [])]),
                     (''myrealm'', Dir [(''Mage'', Dir [])])])])])],
      logged = [], clock_epoch = 17, clock_stamp = ''20260101_120000'',
      unreadable = [], unwritable = [], recursion_limit = 20\<rparr>"

text \<open>Three accounts: \<open>Bob\<close>, the one to migrate; \<open>Bobby\<close>, whose name starts with
  \<open>Bob\<close>; and \<open>Alt\<close>, with a character called \<open>Bob\<close>.\<close>

definition two_accounts :: migrator where
  "two_accounts =
     \<lparr>wtf_path = ''/WTF'', dry_run = False, changes_made = [], working_path = ''/WTF'',
      disk = Dir [(''WTF'', Dir [(''Account'', Dir [
                (''Bob'', Dir [(''R1'', Dir [(''Hero'', Dir [(''f.lua'', File ''realm R1'')])])]),
                (''Bobby'', Dir [(''R1'', Dir [(''Mage'', Dir [(''f.lua'', File ''realm R1'')])])]),
                (''Alt'', Dir [(''R1'', Dir [(''Bob'', Dir [(''g.lua'', File ''x'')])])])])])],
      logged = [], clock_epoch = 17, clock_stamp = ''20260101_120000'',
      unreadable = [], unwritable = [], recursion_limit = 20\<rparr>"

text \<open>The tool started inside the folder to migrate, which is given as \<^verbatim>\<open>.\<close>\<close>

definition started_inside :: migrator where
  "started_inside =
     \<lparr>wtf_path = ''.'', dry_run = False, changes_made = [], working_path = ''.'',
      disk = Dir [(''Account'', Dir [(''Bob'', Dir [(''A'', Dir [(''f.lua'', File ''realm A'')])])])],
      logged = [], clock_epoch = 17, clock_stamp = ''20260101_120000'',
      unreadable = [], unwritable = [], recursion_limit = 20\<rparr>"

text \<open>What makes the \<^verbatim>\<open>try\<close> block fail on a file with components \<open>ps\<close> and text
  \<open>c\<close>: it cannot be opened for reading, it would be written but cannot be opened for
  writing, or a replacement is a template that \<^verbatim>\<open>re.sub\<close> rejects.\<close>

definition open_fails :: "mappings \<Rightarrow> migrator \<Rightarrow> string list \<Rightarrow> string \<Rightarrow> bool" where
  "open_fails cm m ps c =
     (ps \<in> set (unreadable m) \<or> (ps \<in> set (unwritable m) \<and> \<not> dry_run m)
      \<or> apply_mappings cm c = None)"


section \<open>Properties\<close>

subsection \<open>Reading the tree after a change\<close>

lemma lookup_File [simp]: "lookup p (File c) = (if p = [] then Some (File c) else None)"
  by (cases p) simp_all

lemma lookup_put_at_incomparable:
  "\<not> prefix q p \<Longrightarrow> \<not> prefix p q \<Longrightarrow> lookup p (put_at q n t) = lookup p t"
proof (induction q arbitrary: p t)
  case Nil
  then show ?case by simp
next
  case (Cons s ss)
  then obtain s' ps where p: "p = s' # ps" by (cases p) auto
  show ?case
  proof (cases t)
    case (File c)
    then show ?thesis by simp
  next
    case (Dir es)
    show ?thesis
    proof (cases "s' = s")
      case False
      then show ?thesis using Dir p by (simp add: update_conv' split: option.splits)
    next
      case True
      with Cons.prems p have np: "\<not> prefix ss ps" "\<not> prefix ps ss" by simp_all
      then have "ss \<noteq> []" by auto
      with True Dir p Cons.IH [OF np] show ?thesis
        by (simp add: update_conv' split: option.splits)
    qed
  qed
qed

lemma lookup_remove_at_incomparable:
  "\<not> prefix q p \<Longrightarrow> \<not> prefix p q \<Longrightarrow> lookup p (remove_at q t) = lookup p t"
proof (induction q arbitrary: p t)
  case Nil
  then show ?case by simp
next
  case (Cons s ss)
  then obtain s' ps where p: "p = s' # ps" by (cases p) auto
  show ?case
  proof (cases t)
    case (File c)
    then show ?thesis by simp
  next
    case (Dir es)
    show ?thesis
    proof (cases "s' = s")
      case False
      then show ?thesis using Dir p by (simp add: update_conv' delete_conv' split: option.splits)
    next
      case True
      with Cons.prems p have np: "\<not> prefix ss ps" "\<not> prefix ps ss" by simp_all
      then have "ss \<noteq> []" by auto
      with True Dir p Cons.IH [OF np] show ?thesis
        by (simp add: update_conv' split: option.splits)
    qed
  qed
qed


lemma lookup_put_at_self:
  "q \<noteq> [] \<Longrightarrow> is_dir_node (lookup (butlast q) t) \<Longrightarrow> lookup q (put_at q n t) = Some n"
proof (induction q arbitrary: t)
  case Nil
  then show ?case by simp
next
  case (Cons s ss)
  then show ?case
    by (cases t) (auto simp: update_conv' is_dir_node_def split: option.splits if_splits)
qed

lemma lookup_remove_at_self: "q \<noteq> [] \<Longrightarrow> lookup q (remove_at q t) = None"
proof (induction q arbitrary: t)
  case Nil
  then show ?case by simp
next
  case (Cons s ss)
  then show ?case
    by (cases t) (auto simp: update_conv' delete_conv' split: option.splits if_splits)
qed

subsection \<open>Substitution: case and word boundaries\<close>

lemma lower_str_length: "lower_str k = lower_str k' \<Longrightarrow> length k = length k'"
  unfolding lower_str_def by (rule map_eq_imp_length_eq)







subsection \<open>The object's fields under logging\<close>

lemma logger_fields [simp]:
  "disk (logger lv msg m) = disk m"
  "wtf_path (logger lv msg m) = wtf_path m"
  "dry_run (logger lv msg m) = dry_run m"
  "working_path (logger lv msg m) = working_path m"
  "changes_made (logger lv msg m) = changes_made m"
  "clock_epoch (logger lv msg m) = clock_epoch m"
  "clock_stamp (logger lv msg m) = clock_stamp m"
  "unreadable (logger lv msg m) = unreadable m"
  "unwritable (logger lv msg m) = unwritable m"
  "recursion_limit (logger lv msg m) = recursion_limit m"
  by (simp_all add: logger_def)

lemma log_pair_fields [simp]:
  "disk (log_pair w a b m) = disk m"
  "wtf_path (log_pair w a b m) = wtf_path m"
  "dry_run (log_pair w a b m) = dry_run m"
  "working_path (log_pair w a b m) = working_path m"
  "changes_made (log_pair w a b m) = changes_made m"
  "clock_epoch (log_pair w a b m) = clock_epoch m"
  "clock_stamp (log_pair w a b m) = clock_stamp m"
  "unreadable (log_pair w a b m) = unreadable m"
  "unwritable (log_pair w a b m) = unwritable m"
  "recursion_limit (log_pair w a b m) = recursion_limit m"
  by (simp_all add: log_pair_def)


lemma logged_logger [simp]: "logged (logger lv msg m) = logged m @ [(lv, msg)]"
  by (simp add: logger_def)

subsection \<open>Directory names are matched exactly\<close>

lemma rename_dir_recorded:
  assumes "rename_dir fm d m = (Inr (Some r), m')"
  shows "fst r = d \<and> (\<exists>nm. map_of fm (os_path_basename d) = Some nm \<and> nm \<noteq> os_path_basename d
           \<and> snd r = os_path_join (os_path_dirname d) nm)"
proof (cases "truthy (map_of fm (os_path_basename d)) \<and> the (map_of fm (os_path_basename d)) \<noteq> os_path_basename d")
  case False
  with assms show ?thesis by (simp add: rename_dir_def Let_def)
next
  case True
  then obtain nm where nm: "map_of fm (os_path_basename d) = Some nm" "nm \<noteq> os_path_basename d"
    by (cases "map_of fm (os_path_basename d)") (auto simp: truthy_def)
  from assms True nm have "r = (d, os_path_join (os_path_dirname d) nm)"
    by (auto simp: rename_dir_def Let_def split: if_splits prod.splits sum.splits option.splits)
  with nm show ?thesis by simp
qed

lemma rename_dir_no_key:
  assumes "os_path_basename d \<notin> fst ` set fm"
  shows "rename_dir fm d m = (Inr None, m)"
proof -
  from assms have "map_of fm (os_path_basename d) = None"
    by (simp add: map_of_eq_None_iff)
  then show ?thesis by (simp add: rename_dir_def Let_def truthy_def)
qed

lemma rename_loop_recorded:
  "rename_loop fm ds acc m = (Inr rs, m') \<Longrightarrow>
   \<forall>r \<in> set acc. os_path_basename (fst r) \<in> fst ` set fm \<Longrightarrow>
   \<forall>r \<in> set rs. os_path_basename (fst r) \<in> fst ` set fm"
proof (induction ds arbitrary: acc m)
  case Nil
  then show ?case by simp
next
  case (Cons x ds)
  obtain d depth where x: "x = (d, depth)" by (cases x)
  obtain res m1 where step: "rename_dir fm d m = (res, m1)" by (cases "rename_dir fm d m")
  show ?case
  proof (cases res)
    case (Inl e)
    with Cons.prems step x show ?thesis by simp
  next
    case (Inr o1)
    show ?thesis
    proof (cases o1)
      case None
      with Inr step x Cons.prems have "rename_loop fm ds acc m1 = (Inr rs, m')" by simp
      from Cons.IH [OF this Cons.prems(2)] show ?thesis .
    next
      case (Some r)
      with Inr step x Cons.prems have loop: "rename_loop fm ds (acc @ [r]) m1 = (Inr rs, m')" by simp
      from rename_dir_recorded [of fm d m r m1] step Inr Some
      have "os_path_basename (fst r) \<in> fst ` set fm"
        by (auto dest: map_of_SomeD simp: image_iff) (metis fst_conv map_of_SomeD)
      with Cons.prems(2) have "\<forall>r \<in> set (acc @ [r]). os_path_basename (fst r) \<in> fst ` set fm" by simp
      from Cons.IH [OF loop this] show ?thesis .
    qed
  qed
qed

text \<open>
  \<^bold>\<open>C10.\<close> A directory is renamed only when its basename is equal, character for
  character, to a key of the folder mapping: one turn of the loop leaves a directory
  whose name is no key as it is, and every pair \<^verbatim>\<open>rename_folders\<close> reports starts from a
  directory whose basename is a key. Letter case counts here, unlike in the file contents.
\<close>

theorem folders_match_keys_exactly:
  "(\<forall>d m. os_path_basename d \<notin> fst ` set fm \<longrightarrow> rename_dir fm d m = (Inr None, m))
   \<and> (\<forall>old_account m rs. fst (rename_folders fm old_account m) = Inr rs \<longrightarrow>
         (\<forall>r \<in> set rs. os_path_basename (fst r) \<in> fst ` set fm))"
proof -
  have "\<forall>r \<in> set rs. os_path_basename (fst r) \<in> fst ` set fm"
    if "fst (rename_folders fm old_account m) = Inr rs" for old_account m rs
  proof -
    have "rename_loop fm (sort_deepest_first (all_dirs m old_account)) [] m
            = (Inr rs, snd (rename_folders fm old_account m))"
      using that by (cases "rename_folders fm old_account m") (simp add: rename_folders_def)
    from rename_loop_recorded [OF this] show ?thesis by simp
  qed
  then show ?thesis using rename_dir_no_key by blast
qed

theorem folders_match_keys_exactly_witness:
  "lower_str ''myrealm'' = lower_str ''MyRealm''
   \<and> os_path_basename ''/W/Account/Bob/myrealm'' \<notin> fst ` set [(''MyRealm'', ''NewRealm'')]
   \<and> rename_dir [(''MyRealm'', ''NewRealm'')] ''/W/Account/Bob/myrealm'' mixed_case = (Inr None, mixed_case)
   \<and> fst (rename_folders [(''MyRealm'', ''NewRealm'')] None mixed_case)
        = Inr [(''/W/Account/Bob/MyRealm'', ''/W/Account/Bob/NewRealm'')]
   \<and> os_path_basename (fst (''/W/Account/Bob/MyRealm'', ''/W/Account/Bob/NewRealm''))
         \<in> fst ` set [(''MyRealm'', ''NewRealm'')]
   \<and> apply_mappings [(''MyRealm'', ''NewRealm'')] ''realm = myrealm'' = Some ''realm = NewRealm''"
proof -
  have a: "lower_str ''myrealm'' = lower_str ''MyRealm''" by code_simp
  have b: "os_path_basename ''/W/Account/Bob/myrealm'' \<notin> fst ` set [(''MyRealm'', ''NewRealm'')]"
    by code_simp
  have c: "fst (rename_folders [(''MyRealm'', ''NewRealm'')] None mixed_case)
        = Inr [(''/W/Account/Bob/MyRealm'', ''/W/Account/Bob/NewRealm'')]"
    by code_simp
  have d: "apply_mappings [(''MyRealm'', ''NewRealm'')] ''realm = myrealm'' = Some ''realm = NewRealm''"
    by code_simp
  note t = folders_match_keys_exactly [of "[(''MyRealm'', ''NewRealm'')]"]
  from t b have e: "rename_dir [(''MyRealm'', ''NewRealm'')] ''/W/Account/Bob/myrealm'' mixed_case
       = (Inr None, mixed_case)" by blast
  from t c have "\<forall>r \<in> set [(''/W/Account/Bob/MyRealm'', ''/W/Account/Bob/NewRealm'')].
          os_path_basename (fst r) \<in> fst ` set [(''MyRealm'', ''NewRealm'')]" by blast
  then have f: "os_path_basename (fst (''/W/Account/Bob/MyRealm'', ''/W/Account/Bob/NewRealm''))
         \<in> fst ` set [(''MyRealm'', ''NewRealm'')]" by simp
  from a b c d e f show ?thesis by blast
qed


subsection \<open>Exceptions and the result of \<^verbatim>\<open>migrate\<close>\<close>





subsection \<open>The order of the renaming pass\<close>

lemma split_sep_nonempty: "split_sep s \<noteq> []"
  by (induction s) (auto split: list.splits)

lemma length_split_sep: "length (split_sep s) = Suc (length (filter (\<lambda>c. c = sep) s))"
proof (induction s)
  case Nil
  then show ?case by simp
next
  case (Cons c s)
  then show ?case using split_sep_nonempty [of s] by (auto split: list.splits)
qed

lemma below_deeper: "below a d \<Longrightarrow> length (split_sep a) < length (split_sep d)"
  by (auto simp: below_def prefix_def length_split_sep)

lemma all_dirs_depth: "e \<in> set (all_dirs m oa) \<Longrightarrow> snd e = length (split_sep (fst e))"
  by (auto simp: all_dirs_def)

lemma sort_deepest_first_mset: "mset (sort_deepest_first xs) = mset xs"
  by (simp add: sort_deepest_first_def)

lemma sort_deepest_first_desc:
  "sorted_wrt (\<lambda>a b. b \<le> a) (map snd (sort_deepest_first xs))"
proof -
  have "sorted (map snd (sort_key snd (rev xs)))" by (rule sorted_sort_key)
  then show ?thesis
    by (simp add: sort_deepest_first_def rev_map [symmetric] sorted_wrt_rev)
qed

lemma sort_deepest_first_order:
  assumes "i < j" "j < length (sort_deepest_first xs)"
  shows "snd (sort_deepest_first xs ! j) \<le> snd (sort_deepest_first xs ! i)"
proof -
  let ?ds = "sort_deepest_first xs"
  from sorted_wrt_nth_less [OF sort_deepest_first_desc, of i j xs] assms
  have "map snd ?ds ! j \<le> map snd ?ds ! i" by simp
  with assms show ?thesis by simp
qed

text \<open>
  \<^bold>\<open>C3.\<close> \<^verbatim>\<open>rename_folders\<close> runs its loop over a list computed from the state it is
  called in, before anything is renamed: all the directories the walk keeps, each with the
  number of its path segments, sorted by that number, largest first. So a directory that
  lies below another one comes before it: no directory is processed after one of its
  ancestors, and no turn of the loop works on a path that an earlier rename of an ancestor
  has taken away.
\<close>

theorem deepest_first_order:
  "rename_folders fm oa m = rename_loop fm (sort_deepest_first (all_dirs m oa)) [] m
   \<and> mset (sort_deepest_first (all_dirs m oa)) = mset (all_dirs m oa)
   \<and> (\<forall>e \<in> set (sort_deepest_first (all_dirs m oa)). snd e = length (split_sep (fst e)))
   \<and> sorted_wrt (\<lambda>a b. b \<le> a) (map snd (sort_deepest_first (all_dirs m oa)))
   \<and> (\<forall>i j. i < j \<and> j < length (sort_deepest_first (all_dirs m oa)) \<longrightarrow>
          \<not> below (fst (sort_deepest_first (all_dirs m oa) ! i))
                   (fst (sort_deepest_first (all_dirs m oa) ! j)))"
proof -
  let ?ds = "sort_deepest_first (all_dirs m oa)"
  have set_eq: "set ?ds = set (all_dirs m oa)"
    using sort_deepest_first_mset [of "all_dirs m oa"] by (rule mset_eq_setD)
  have depth: "\<forall>e \<in> set ?ds. snd e = length (split_sep (fst e))"
    using set_eq all_dirs_depth by blast
  have "\<not> below (fst (?ds ! i)) (fst (?ds ! j))" if "i < j" "j < length ?ds" for i j
  proof
    assume b: "below (fst (?ds ! i)) (fst (?ds ! j))"
    have "?ds ! i \<in> set ?ds" "?ds ! j \<in> set ?ds" using that by simp_all
    with depth have "snd (?ds ! i) = length (split_sep (fst (?ds ! i)))"
      "snd (?ds ! j) = length (split_sep (fst (?ds ! j)))" by blast+
    with below_deeper [OF b] have "snd (?ds ! i) < snd (?ds ! j)" by simp
    with sort_deepest_first_order [OF that] show False by simp
  qed
  then show ?thesis
    using depth sort_deepest_first_mset sort_deepest_first_desc
    by (simp add: rename_folders_def)
qed


theorem deepest_first_order_witness:
  "sort_deepest_first (all_dirs mixed_case None)
     = [(''/W/Account/Bob/MyRealm/Hero'', 6), (''/W/Account/Bob/myrealm/Mage'', 6),
        (''/W/Account/Bob/MyRealm'', 5), (''/W/Account/Bob/myrealm'', 5),
        (''/W/Account/Bob'', 4), (''/W/Account'', 3)]
   \<and> (''/W/Account/Bob/MyRealm'', 5) \<in> set (sort_deepest_first (all_dirs mixed_case None))
   \<and> snd (''/W/Account/Bob/MyRealm'', 5::nat) = length (split_sep (fst (''/W/Account/Bob/MyRealm'', 5::nat)))
   \<and> (0::nat) < 2 \<and> 2 < length (sort_deepest_first (all_dirs mixed_case None))
   \<and> below ''/W/Account/Bob/MyRealm'' ''/W/Account/Bob/MyRealm/Hero''
   \<and> \<not> below (fst (sort_deepest_first (all_dirs mixed_case None) ! 0))
              (fst (sort_deepest_first (all_dirs mixed_case None) ! 2))"
proof -
  let ?ds = "sort_deepest_first (all_dirs mixed_case None)"
  have v: "?ds = [(''/W/Account/Bob/MyRealm/Hero'', 6), (''/W/Account/Bob/myrealm/Mage'', 6),
        (''/W/Account/Bob/MyRealm'', 5), (''/W/Account/Bob/myrealm'', 5),
        (''/W/Account/Bob'', 4), (''/W/Account'', 3)]"
    by code_simp
  have mem: "(''/W/Account/Bob/MyRealm'', 5) \<in> set ?ds" by (simp add: v)
  have len: "(0::nat) < 2 \<and> 2 < length ?ds" by (simp add: v)
  have b: "below ''/W/Account/Bob/MyRealm'' ''/W/Account/Bob/MyRealm/Hero''" by code_simp
  note t = deepest_first_order [of "[]" None mixed_case]
  from t mem have d: "snd (''/W/Account/Bob/MyRealm'', 5::nat)
      = length (split_sep (fst (''/W/Account/Bob/MyRealm'', 5::nat)))" by blast
  from t len have o: "\<not> below (fst (?ds ! 0)) (fst (?ds ! 2))" by blast
  from v mem d len b o show ?thesis by blast
qed

subsection \<open>The account filter\<close>

text \<open>
  \<^bold>\<open>C6.\<close> A run restricted to the account \<open>Bob\<close>, on a tree that also holds the accounts
  \<open>Bobby\<close> and \<open>Alt\<close>: in the result the file of \<open>Bobby\<close> has been rewritten (its path
  starts with the text of Bob's path, and \<^verbatim>\<open>update_file_contents\<close> compares by
  \<^verbatim>\<open>startswith\<close> without a separator), and the directory \<open>Bob\<close> of a character of \<open>Alt\<close>
  has been renamed (\<^verbatim>\<open>"Account" in root\<close> holds anywhere below the account folder).
\<close>

theorem scope_filter_leaks:
  "disk (snd (migrate ''R1'' ''R2'' None None (Some ''Bob'') (Some ''Robert'') two_accounts))
     = Dir [(''WTF'', Dir [(''Account'', Dir [
                (''Bob'', Dir [(''R1'', Dir [(''Hero'', Dir [(''f.lua'', File ''realm R1'')])])]),
                (''Bobby'', Dir [(''R1'', Dir [(''Mage'', Dir [(''f.lua'', File ''realm R1'')])])]),
                (''Alt'', Dir [(''R1'', Dir [(''Bob'', Dir [(''g.lua'', File ''x'')])])])])]),
            (''WTF_migrated_R1_to_R2_20260101_120000'', Dir [(''Account'', Dir [
                (''Bobby'', Dir [(''R1'', Dir [(''Mage'', Dir [(''f.lua'', File ''realm R2'')])])]),
                (''Alt'', Dir [(''R1'', Dir [(''Robert'', Dir [(''g.lua'', File ''x'')])])]),
                (''Robert'', Dir [(''R2'', Dir [(''Hero'', Dir [(''f.lua'', File ''realm R2'')])])])])])]"
  by code_simp

subsection \<open>Files that cannot be processed\<close>


lemma open_fails_cong:
  "unreadable m' = unreadable m \<Longrightarrow> unwritable m' = unwritable m \<Longrightarrow> dry_run m' = dry_run m \<Longrightarrow>
   open_fails cm m' ps c = open_fails cm m ps c"
  by (simp add: open_fails_def)






subsection \<open>The original tree\<close>

text \<open>
  \<^bold>\<open>C1.\<close> The tool is started in the folder to migrate, given as \<^verbatim>\<open>.\<close>: the parent of
  that path is \<^verbatim>\<open>.\<close> again, so the copy is made inside the original tree, which has one
  directory more after the run.
\<close>

theorem copy_lands_inside_original:
  "lookup (segments (wtf_path started_inside))
          (disk (snd (migrate ''A'' ''B'' None None None None started_inside)))
     = Some (Dir [(''Account'', Dir [(''Bob'', Dir [(''A'', Dir [(''f.lua'', File ''realm A'')])])]),
                  (''WTF_migrated_A_to_B_20260101_120000'',
                   Dir [(''Account'', Dir [(''Bob'', Dir [(''B'', Dir [(''f.lua'', File ''realm B'')])])])])])
   \<and> lookup (segments (wtf_path started_inside)) (disk started_inside)
     = Some (Dir [(''Account'', Dir [(''Bob'', Dir [(''A'', Dir [(''f.lua'', File ''realm A'')])])])])"
  by code_simp

subsection \<open>Substitution word by word\<close>

lemma is_word_lower [simp]: "is_word (lower_char c) = is_word c"
proof (cases "is_upper c")
  case True
  then have "of_char (char_of (of_char c + 32 :: nat)) = (of_char c + 32 :: nat)"
    by (simp add: is_upper_def)
  with True have "is_lower (lower_char c)"
    by (simp add: lower_char_def is_lower_def is_upper_def)
  with True show ?thesis by (simp add: is_word_def)
next
  case False
  then show ?thesis by (simp add: lower_char_def)
qed

lemma lower_str_all_word:
  "lower_str t = lower_str k \<Longrightarrow> (\<forall>c \<in> set k. is_word c) \<Longrightarrow> (\<forall>c \<in> set t. is_word c)"
proof -
  assume a: "lower_str t = lower_str k" and b: "\<forall>c \<in> set k. is_word c"
  have "\<forall>c \<in> set (lower_str k). is_word c" using b by (auto simp: lower_str_def)
  with a have "\<forall>c \<in> set (lower_str t). is_word c" by simp
  then show ?thesis by (auto simp: lower_str_def)
qed

lemma word_opt_simps [simp]: "word_opt None = False" "word_opt (Some c) = is_word c"
  by (simp_all add: word_opt_def)

lemma first_opt_simps [simp]: "first_opt [] = None" "first_opt (c # cs) = Some c"
  by (simp_all add: first_opt_def)

lemma first_opt_dropWhile [simp]: "\<not> word_opt (first_opt (dropWhile is_word s))"
proof (cases "dropWhile is_word s")
  case Nil
  show ?thesis unfolding Nil by simp
next
  case (Cons c cs)
  then have "\<not> is_word (hd (dropWhile is_word s))"
    using hd_dropWhile [of is_word s] by simp
  with Cons show ?thesis by simp
qed

lemma takeWhile_stop:
  "\<forall>c \<in> set t. is_word c \<Longrightarrow> \<not> word_opt (first_opt u) \<Longrightarrow> takeWhile is_word (t @ u) = t"
  by (cases u) simp_all

lemma dropWhile_stop:
  "\<forall>c \<in> set t. is_word c \<Longrightarrow> \<not> word_opt (first_opt u) \<Longrightarrow> dropWhile is_word (t @ u) = u"
  by (cases u) simp_all

lemma match_here_after_word:
  assumes "is_name k" "word_opt p"
  shows "\<not> match_here k p s"
proof
  assume m: "match_here k p s"
  from assms(1) have kne: "k \<noteq> []" and kw: "\<forall>c \<in> set k. is_word c" by (simp_all add: is_name_def)
  from m kne obtain c cs where s: "s = c # cs" by (cases s) (auto simp: match_here_def)
  from m assms(2) s have nw: "\<not> is_word c"
    by (simp add: match_here_def boundary_def first_opt_def word_opt_def)
  from m have "lower_str (take (length k) s) = lower_str k" by (simp add: match_here_def)
  from lower_str_all_word [OF this kw] have "\<forall>x \<in> set (take (length k) s). is_word x" .
  moreover from kne s have "c \<in> set (take (length k) s)" by (cases k) simp_all
  ultimately show False using nw by blast
qed

lemma match_here_word_run:
  assumes "is_name k" "\<not> word_opt p"
  shows "match_here k p s = (lower_str (takeWhile is_word s) = lower_str k)"
proof
  from assms(1) have kne: "k \<noteq> []" and kw: "\<forall>c \<in> set k. is_word c" by (simp_all add: is_name_def)
  {
    assume m: "match_here k p s"
    let ?t = "take (length k) s"
    from m have len: "length k \<le> length s" and eq: "lower_str ?t = lower_str k"
      and e: "boundary (last_opt p ?t) (first_opt (drop (length k) s))"
      by (simp_all add: match_here_def)
    from lower_str_all_word [OF eq kw] have tw: "\<forall>x \<in> set ?t. is_word x" .
    from len kne have tne: "?t \<noteq> []" by auto
    then have "last ?t \<in> set ?t" by (rule last_in_set)
    with tw have "is_word (last ?t)" by blast
    with e tne have nw: "\<not> word_opt (first_opt (drop (length k) s))"
      by (simp add: boundary_def last_opt_def word_opt_def)
    have "takeWhile is_word (?t @ drop (length k) s) = ?t" using tw nw by (rule takeWhile_stop)
    then have "takeWhile is_word s = ?t" by simp
    with eq show "lower_str (takeWhile is_word s) = lower_str k" by simp
  }
  {
    assume eq: "lower_str (takeWhile is_word s) = lower_str k"
    let ?w = "takeWhile is_word s"
    from lower_str_length [OF eq] have len: "length ?w = length k" .
    with kne have wne: "?w \<noteq> []" by auto
    have s: "s = ?w @ dropWhile is_word s" by simp
    have tk: "take (length k) s = ?w"
      using len s by (metis append_eq_conv_conj)
    have dr: "drop (length k) s = dropWhile is_word s"
      using len s by (metis append_eq_conv_conj)
    have ww: "\<forall>c \<in> set ?w. is_word c" by (auto dest: set_takeWhileD)
    from wne obtain c cs where scs: "s = c # cs" by (cases s) auto
    with wne have "is_word c" by (auto split: if_splits)
    with assms(2) scs have b1: "boundary p (first_opt s)"
      by (simp add: boundary_def first_opt_def word_opt_def)
    from wne ww have "is_word (last ?w)" using last_in_set by blast
    with wne have b2: "boundary (last_opt p ?w) (first_opt (dropWhile is_word s))"
      using first_opt_dropWhile [of s] by (simp add: boundary_def last_opt_def)
    have "length k \<le> length s" using len length_takeWhile_le [of is_word s] by simp
    with b1 b2 eq tk dr show "match_here k p s" by (simp add: match_here_def)
  }
qed

lemma match_here_drop:
  assumes "is_name k" "\<not> word_opt p" "match_here k p s"
  shows "drop (length k) s = dropWhile is_word s \<and> take (length k) s = takeWhile is_word s
         \<and> is_word (last (take (length k) s))"
proof -
  from assms have eq: "lower_str (takeWhile is_word s) = lower_str k"
    by (simp add: match_here_word_run)
  let ?w = "takeWhile is_word s"
  from lower_str_length [OF eq] have len: "length ?w = length k" .
  from assms(1) len have wne: "?w \<noteq> []" by (auto simp: is_name_def)
  have s: "s = ?w @ dropWhile is_word s" by simp
  have tk: "take (length k) s = ?w" using len s by (metis append_eq_conv_conj)
  have dr: "drop (length k) s = dropWhile is_word s" using len s by (metis append_eq_conv_conj)
  have "\<forall>c \<in> set ?w. is_word c" by (auto dest: set_takeWhileD)
  with wne have "is_word (last ?w)" using last_in_set by blast
  with tk dr show ?thesis by simp
qed

lemma sub_scan_words:
  "is_name k \<Longrightarrow> sub_scan k r p s =
           (if word_opt p then takeWhile is_word s @ map_words (word_step k r) (dropWhile is_word s)
            else map_words (word_step k r) s)"
proof (induction k r p s rule: sub_scan.induct)
  case (1 k r p)
  have "\<not> match_here k p []"
    using "1.prems" by (simp add: match_here_def is_name_def)
  then show ?case by simp
next
  case (2 k r p c cs)
  note kn = "2.prems"
  then have kne: "k \<noteq> []" by (simp add: is_name_def)
  let ?f = "word_step k r"
  let ?s = "c # cs"
  show ?case
  proof (cases "word_opt p")
    case True
    then have nm: "\<not> match_here k p ?s" using kn by (simp add: match_here_after_word)
    have ih: "sub_scan k r (Some c) cs =
           (if is_word c then takeWhile is_word cs @ map_words ?f (dropWhile is_word cs)
            else map_words ?f cs)"
      using "2.IH"(3) [OF nm kn] by simp
    have "sub_scan k r p ?s = c # sub_scan k r (Some c) cs"
      using nm by (simp del: sub_scan.simps add: sub_scan.simps(2) [of k r p c cs])
    with True ih show ?thesis by simp
  next
    case False
    show ?thesis
    proof (cases "match_here k p ?s")
      case m: True
      from match_here_drop [OF kn False m]
      have dr: "drop (length k) ?s = dropWhile is_word ?s"
        and tk: "take (length k) ?s = takeWhile is_word ?s"
        and lw: "is_word (last (take (length k) ?s))" by blast+
      from m kn False have eq: "lower_str (takeWhile is_word ?s) = lower_str k"
        by (simp add: match_here_word_run)
      from tk kne have wc: "is_word c" by (cases "is_word c") auto
      have ih: "sub_scan k r (Some (last (take (length k) ?s))) (drop (length k) ?s) =
          takeWhile is_word (drop (length k) ?s)
            @ map_words ?f (dropWhile is_word (drop (length k) ?s))"
        using "2.IH"(2) [OF m kne kn] lw by simp
      have t0: "takeWhile is_word (dropWhile is_word ?s) = []"
        using first_opt_dropWhile [of ?s] by (cases "dropWhile is_word ?s") simp_all
      have d0: "dropWhile is_word (dropWhile is_word ?s) = dropWhile is_word ?s"
        using first_opt_dropWhile [of ?s] by (cases "dropWhile is_word ?s") simp_all
      have "sub_scan k r p ?s = r @ map_words ?f (dropWhile is_word ?s)"
        using m kne ih t0 d0
        by (simp del: sub_scan.simps add: sub_scan.simps(2) [of k r p c cs] dr)
      moreover have "map_words ?f ?s = r @ map_words ?f (dropWhile is_word ?s)"
        using wc eq by (simp add: word_step_def)
      ultimately show ?thesis using False by simp
    next
      case nm: False
      have ih: "sub_scan k r (Some c) cs =
           (if is_word c then takeWhile is_word cs @ map_words ?f (dropWhile is_word cs)
            else map_words ?f cs)"
        using "2.IH"(3) [OF nm kn] by simp
      have ss: "sub_scan k r p ?s = c # sub_scan k r (Some c) cs"
        using nm by (simp del: sub_scan.simps add: sub_scan.simps(2) [of k r p c cs])
      from nm kn False have ne: "lower_str (takeWhile is_word ?s) \<noteq> lower_str k"
        by (simp add: match_here_word_run)
      show ?thesis
      proof (cases "is_word c")
        case True
        with ne have "map_words ?f ?s = (c # takeWhile is_word cs) @ map_words ?f (dropWhile is_word cs)"
          by (simp add: word_step_def)
        with ss ih True False show ?thesis by simp
      next
        case nw: False
        with ss ih False show ?thesis by simp
      qed
    qed
  qed
qed

lemma is_name_takeWhile: "is_word c \<Longrightarrow> is_name (takeWhile is_word (c # cs))"
  by (auto simp: is_name_def dest: set_takeWhileD)

lemma map_words_append_word:
  assumes "is_name u" "\<not> word_opt (first_opt t)"
  shows "map_words g (u @ t) = g u @ map_words g t"
proof -
  from assms(1) obtain c u' where u: "u = c # u'" and c: "is_word c" and w: "\<forall>x \<in> set u. is_word x"
    by (cases u) (auto simp: is_name_def)
  have "map_words g (c # (u' @ t)) =
          g (takeWhile is_word (u @ t)) @ map_words g (dropWhile is_word (u @ t))"
    using c u by (simp del: takeWhile.simps dropWhile.simps)
  with takeWhile_stop [OF w assms(2)] dropWhile_stop [OF w assms(2)] u show ?thesis by simp
qed

lemma map_words_first:
  "\<not> word_opt (first_opt s) \<Longrightarrow> \<not> word_opt (first_opt (map_words f s))"
  by (cases s) (auto split: if_splits)

lemma map_words_comp:
  "(\<And>w. is_name w \<Longrightarrow> is_name (f w)) \<Longrightarrow>
   map_words g (map_words f s) = map_words (\<lambda>w. g (f w)) s"
proof (induction f s rule: map_words.induct)
  case (1 f)
  then show ?case by simp
next
  case (2 f c cs)
  show ?case
  proof (cases "is_word c")
    case True
    let ?w = "takeWhile is_word (c # cs)"
    let ?rest = "dropWhile is_word (c # cs)"
    have n: "is_name (f ?w)" using "2.prems" is_name_takeWhile [OF True] by blast
    have nf: "\<not> word_opt (first_opt (map_words f ?rest))"
      by (rule map_words_first) (rule first_opt_dropWhile)
    have "map_words g (map_words f (c # cs)) = map_words g (f ?w @ map_words f ?rest)"
      using True by (simp del: takeWhile.simps dropWhile.simps)
    also have "\<dots> = g (f ?w) @ map_words g (map_words f ?rest)"
      using n nf by (rule map_words_append_word)
    also have "map_words g (map_words f ?rest) = map_words (\<lambda>w. g (f w)) ?rest"
      using "2.IH"(1) [OF True] "2.prems" by blast
    finally show ?thesis using True by (simp del: takeWhile.simps dropWhile.simps)
  next
    case False
    with "2.IH"(2) "2.prems" show ?thesis by simp
  qed
qed

lemma map_words_cong:
  "(\<And>w. is_name w \<Longrightarrow> f w = g w) \<Longrightarrow> map_words f s = map_words g s"
proof (induction f s rule: map_words.induct)
  case (1 f)
  then show ?case by simp
next
  case (2 f c cs)
  show ?case
  proof (cases "is_word c")
    case True
    have "f (takeWhile is_word (c # cs)) = g (takeWhile is_word (c # cs))"
      using "2.prems" is_name_takeWhile [OF True] by blast
    with "2.IH"(1) [OF True] "2.prems" True show ?thesis
      by (simp del: takeWhile.simps dropWhile.simps)
  next
    case False
    with "2.IH"(2) "2.prems" show ?thesis by simp
  qed
qed

lemma map_words_id: "map_words (\<lambda>w. w) s = s"
proof (induction "\<lambda>w::string. w" s rule: map_words.induct)
  case 1
  then show ?case by simp
next
  case (2 c cs)
  then show ?case by (cases "is_word c") (simp_all del: takeWhile.simps dropWhile.simps)
qed

lemma is_name_literal: "is_name v \<Longrightarrow> literal_template v"
proof -
  have "\<not> is_word (CHR 0x5C)" by code_simp
  then show "is_name v \<Longrightarrow> literal_template v"
    by (auto simp: is_name_def literal_template_def)
qed

lemma re_sub_words:
  "is_name k \<Longrightarrow> is_name v \<Longrightarrow> re_sub k v s = Some (map_words (word_step k v) s)"
  by (simp add: re_sub_def is_name_literal sub_scan_words)

lemma chain_Cons: "chain ((k, v) # m) w = chain m (word_step k v w)"
  by (simp add: word_step_def)

lemma apply_mappings_words:
  "name_mapping m \<Longrightarrow> apply_mappings m s = Some (map_words (chain m) s)"
proof (induction m arbitrary: s)
  case Nil
  have "chain [] = (\<lambda>w. w)" by (rule ext) simp
  then show ?case by (simp add: map_words_id)
next
  case (Cons x m)
  obtain k v where x: "x = (k, v)" by (cases x)
  from Cons.prems x have kv: "is_name k" "is_name v" and nm: "name_mapping m"
    by (simp_all add: name_mapping_def)
  have st: "is_name (word_step k v w)" if "is_name w" for w
    using that kv by (simp add: word_step_def)
  have "apply_mappings (x # m) s = apply_mappings m (map_words (word_step k v) s)"
    using x kv by (simp add: re_sub_words)
  also have "\<dots> = Some (map_words (chain m) (map_words (word_step k v) s))"
    using Cons.IH [OF nm] .
  also have "map_words (chain m) (map_words (word_step k v) s)
             = map_words (\<lambda>w. chain m (word_step k v w)) s"
    using st by (rule map_words_comp)
  also have "(\<lambda>w. chain m (word_step k v w)) = chain (x # m)"
    unfolding x by (rule ext) (simp only: chain_Cons)
  finally show ?case .
qed



lemma occurs_word_run:
  "is_name k \<Longrightarrow> word_opt p \<Longrightarrow> \<forall>c \<in> set s. is_word c \<Longrightarrow> \<not> occurs k p s"
proof (induction s arbitrary: p)
  case Nil
  then show ?case by (simp add: match_here_after_word)
next
  case (Cons c cs)
  then show ?case by (simp add: match_here_after_word)
qed

lemma occurs_name:
  assumes "is_name k" "is_name v"
  shows "occurs k None v = (lower_str v = lower_str k)"
proof -
  from assms(2) obtain c cs where v: "v = c # cs" and w: "\<forall>x \<in> set v. is_word x"
    by (cases v) (auto simp: is_name_def)
  have tw: "takeWhile is_word v = v" using w by (simp add: takeWhile_eq_all_conv)
  have "\<not> occurs k (Some c) cs" using assms(1) w v by (intro occurs_word_run) simp_all
  then have "occurs k None v = match_here k None v" using v by simp
  also have "\<dots> = (lower_str (takeWhile is_word v) = lower_str k)"
    using assms(1) by (simp add: match_here_word_run)
  finally show ?thesis using tw by simp
qed

lemma chain_no_key:
  "\<forall>(k, v) \<in> set m. lower_str w \<noteq> lower_str k \<Longrightarrow> chain m w = w"
  by (induction m arbitrary: w) auto

lemma chain_lookup:
  assumes "\<forall>(k, v) \<in> set m. \<forall>(k', v') \<in> set m. lower_str v' \<noteq> lower_str k"
  shows "chain m w = (case map_of (map (\<lambda>(k, v). (lower_str k, v)) m) (lower_str w) of
                        None \<Rightarrow> w | Some v \<Rightarrow> v)"
  using assms
proof (induction m arbitrary: w)
  case Nil
  then show ?case by simp
next
  case (Cons x m)
  obtain k v where x: "x = (k, v)" by (cases x)
  from Cons.prems have sub: "\<forall>(k, v) \<in> set m. \<forall>(k', v') \<in> set m. lower_str v' \<noteq> lower_str k"
    by auto
  show ?case
  proof (cases "lower_str w = lower_str k")
    case True
    from Cons.prems x have "\<forall>(k', v') \<in> set m. lower_str v \<noteq> lower_str k'" by auto
    then have "chain m v = v" by (rule chain_no_key)
    with True x show ?thesis by simp
  next
    case False
    with x Cons.IH [OF sub, of w] show ?thesis by auto
  qed
qed



lemma no_rematch_names:
  assumes "name_mapping m" "no_rematch m"
  shows "\<forall>(k, v) \<in> set m. \<forall>(k', v') \<in> set m. lower_str v' \<noteq> lower_str k"
proof -
  have "lower_str v' \<noteq> lower_str k" if "(k, v) \<in> set m" "(k', v') \<in> set m" for k v k' v'
  proof -
    from that assms(1) have n: "is_name k" "is_name v'"
      by (auto simp: name_mapping_def list_all_iff)
    from that assms(2) have "\<not> occurs k None v'"
      by (auto simp: no_rematch_def list_all_iff)
    with occurs_name [OF n] show ?thesis by simp
  qed
  then show ?thesis by blast
qed


lemma rewrite_order_names:
  assumes "name_mapping m" "no_rematch m" "distinct (map (\<lambda>(k, v). lower_str k) m)"
    and "mset m' = mset m"
  shows "apply_mappings m' s = apply_mappings m s"
proof -
  from assms(4) have se: "set m' = set m" by (rule mset_eq_setD)
  have nm': "name_mapping m'" using assms(1) se by (simp add: name_mapping_def list_all_iff)
  have nr': "no_rematch m'" using assms(2) se by (simp add: no_rematch_def list_all_iff)
  let ?l = "\<lambda>m. map (\<lambda>(k, v). (lower_str k, v)) m"
  have f: "map fst (?l m) = map (\<lambda>(k, v). lower_str k) m" for m :: mappings
    by (induction m) auto
  have d: "distinct (map fst (?l m))" unfolding f by (rule assms(3))
  have "mset (map (\<lambda>(k, v). lower_str k) m') = mset (map (\<lambda>(k, v). lower_str k) m)"
    using assms(4) by simp
  then have dm: "distinct (map (\<lambda>(k, v). lower_str k) m')"
    using assms(3) by (metis mset_eq_imp_distinct_iff)
  have d': "distinct (map fst (?l m'))" unfolding f by (rule dm)
  have "set (?l m') = set (?l m)" using se by simp
  with d d' have mo: "map_of (?l m') = map_of (?l m)" by (simp add: map_of_inject_set)
  have "chain m' w = chain m w" for w
    using chain_lookup [OF no_rematch_names [OF nm' nr'], of w]
          chain_lookup [OF no_rematch_names [OF assms(1,2)], of w] mo by simp
  then have "map_words (chain m') s = map_words (chain m) s" by (intro map_words_cong) simp
  then show ?thesis using nm' assms(1) by (simp add: apply_mappings_words)
qed

text \<open>A key with a space in it can match again across a replacement and the text after
  it, although it does not match inside the replacement value.\<close>

lemma phrase_key_matches_again:
  "apply_mappings [(''a b'', ''a'')] ''a b b'' = Some ''a b''
   \<and> apply_mappings [(''a b'', ''a'')] ''a b'' = Some ''a''
   \<and> \<not> occurs ''a b'' None ''a''"
  by code_simp

text \<open>
  \<^bold>\<open>C7\<close> as stated fails: the keys are substituted one after the other into the text the
  earlier keys have produced, so with \<open>A \<rightarrow> B\<close> and \<open>B \<rightarrow> C\<close> the text \<open>A\<close> becomes \<open>C\<close> in
  one order and \<open>B\<close> in the other.
\<close>

theorem content_order_matters:
  "apply_mappings [(''A'', ''B''), (''B'', ''C'')] ''A''
     \<noteq> apply_mappings [(''B'', ''C''), (''A'', ''B'')] ''A''"
  by code_simp

text \<open>
  \<^bold>\<open>C7\<close> (as amended). When the keys and the replacement values are names, the keys differ
  from one another also up to letter case, and no key matches a replacement value, the
  entries can be applied in any order: two mappings with the same entries rewrite every
  text alike.
\<close>

theorem order_irrelevant_without_chaining:
  assumes "name_mapping m" "no_rematch m" "distinct (map (\<lambda>(k, v). lower_str k) m)"
    and "mset m' = mset m"
  shows "apply_mappings m' s = apply_mappings m s"
  using assms by (rule rewrite_order_names)

theorem order_irrelevant_without_chaining_witness:
  "name_mapping [(''Stormrage'', ''Ragnaros''), (''Bob'', ''Alice'')]
   \<and> no_rematch [(''Stormrage'', ''Ragnaros''), (''Bob'', ''Alice'')]
   \<and> distinct (map (\<lambda>(k, v). lower_str k) [(''Stormrage'', ''Ragnaros''), (''Bob'', ''Alice'')])
   \<and> mset [(''Bob'', ''Alice''), (''Stormrage'', ''Ragnaros'')]
       = mset [(''Stormrage'', ''Ragnaros''), (''Bob'', ''Alice'')]
   \<and> apply_mappings [(''Bob'', ''Alice''), (''Stormrage'', ''Ragnaros'')] ''bob - STORMRAGE''
       = apply_mappings [(''Stormrage'', ''Ragnaros''), (''Bob'', ''Alice'')] ''bob - STORMRAGE''
   \<and> apply_mappings [(''Stormrage'', ''Ragnaros''), (''Bob'', ''Alice'')] ''bob - STORMRAGE''
       = Some ''Alice - Ragnaros''"
proof -
  have a: "name_mapping [(''Stormrage'', ''Ragnaros''), (''Bob'', ''Alice'')]" by code_simp
  have b: "no_rematch [(''Stormrage'', ''Ragnaros''), (''Bob'', ''Alice'')]" by code_simp
  have c: "distinct (map (\<lambda>(k, v). lower_str k) [(''Stormrage'', ''Ragnaros''), (''Bob'', ''Alice'')])"
    by code_simp
  have d: "mset [(''Bob'', ''Alice''), (''Stormrage'', ''Ragnaros'')]
       = mset [(''Stormrage'', ''Ragnaros''), (''Bob'', ''Alice'')]" by (simp add: add.commute)
  have e: "apply_mappings [(''Stormrage'', ''Ragnaros''), (''Bob'', ''Alice'')] ''bob - STORMRAGE''
       = Some ''Alice - Ragnaros''" by code_simp
  from order_irrelevant_without_chaining [OF a b c d, of "''bob - STORMRAGE''"] a b c d e
  show ?thesis by simp
qed




end
